theory Spec2Isabelle
  imports Main "HOL-Library.Multiset"
begin

section \<open>Data model (the two mongoose schemas of s4.js)\<close>

text \<open>
  An ObjectId is an opaque identifier compared by value; it is modelled as a natural
  number. Strings are character lists, a character standing for a code unit. The
  \<open>followers\<close> counter, the version key and the timestamps are JavaScript Numbers
  holding integers; they are modelled as integers, which is exact in the range where
  Number arithmetic on integers is. \<open>vkey\<close> is the version key \<open>__v\<close> that mongoose
  keeps in every document: 0 in a new document, incremented by a save that writes an
  array path.
\<close>

type_synonym oid = nat

record user =
  uid :: oid
  username :: string
  password :: string
  name :: string
  avatar :: string
  bio :: string
  following :: "oid list"
  followers :: int
  vkey :: int

record comment_user =
  cu_id :: oid
  cu_name :: string
  cu_username :: string
  cu_avatar :: string

record comment =
  comment_user :: comment_user
  comment_content :: string
  comment_createdAt :: int

record tweet =
  tid :: oid
  userId :: oid
  author :: string
  handle :: string
  tweet_avatar :: string
  content :: string
  tweet_image :: "string option"
  likes :: "oid list"
  retweets :: int
  comments :: "comment list"
  createdAt :: int

text \<open>The database: the two collections, each in insertion order.\<close>

record store =
  users :: "user list"
  tweets :: "tweet list"

definition empty_store :: store where
  "empty_store = \<lparr>users = [], tweets = []\<rparr>"

text \<open>
  A handler answers \<open>res.status(n).json({error: msg})\<close>, modelled as \<open>Inl (Err n msg)\<close>,
  or a status with a body, modelled as \<open>Inr (n, body)\<close>.
\<close>

datatype error = Err nat string

type_synonym 'a response = "error + nat \<times> 'a"

section \<open>Store operations\<close>

definition findUser :: "store \<Rightarrow> oid \<Rightarrow> user option" where
  "findUser s i = find (\<lambda>u. uid u = i) (users s)"

definition findUserByName :: "store \<Rightarrow> string \<Rightarrow> user option" where
  "findUserByName s n = find (\<lambda>u. username u = n) (users s)"

definition findTweet :: "store \<Rightarrow> oid \<Rightarrow> tweet option" where
  "findTweet s i = find (\<lambda>t. tid t = i) (tweets s)"

text \<open>
  Schema validation, run by every \<open>save()\<close>: a String path with \<open>required: true\<close>
  rejects the empty string.
\<close>

definition validate_user :: "user \<Rightarrow> bool" where
  "validate_user u = (username u \<noteq> [] \<and> password u \<noteq> [] \<and> name u \<noteq> [])"

definition validate_tweet :: "tweet \<Rightarrow> bool" where
  "validate_tweet t =
     (author t \<noteq> [] \<and> handle t \<noteq> [] \<and> tweet_avatar t \<noteq> [] \<and> content t \<noteq> [])"

text \<open>
  Saving a new document inserts it; a collection is keyed by \<open>_id\<close>, and the user
  schema declares \<open>username\<close> unique, so a duplicate key is refused. \<open>None\<close> is a
  rejected save (the handler's \<open>catch\<close>).
\<close>

definition insert_user :: "store \<Rightarrow> user \<Rightarrow> store option" where
  "insert_user s u =
     (if \<not> validate_user u \<or> uid u \<in> set (map uid (users s))
         \<or> username u \<in> set (map username (users s)) then None
      else Some (s\<lparr>users := users s @ [u]\<rparr>))"

definition insert_tweet :: "store \<Rightarrow> tweet \<Rightarrow> store option" where
  "insert_tweet s t =
     (if \<not> validate_tweet t \<or> tid t \<in> set (map tid (tweets s)) then None
      else Some (s\<lparr>tweets := tweets s @ [t]\<rparr>))"

text \<open>\<open>updateOne\<close> by key: the first document that matches is rewritten.\<close>

fun update_first :: "('a \<Rightarrow> bool) \<Rightarrow> ('a \<Rightarrow> 'a) \<Rightarrow> 'a list \<Rightarrow> 'a list" where
  "update_first P f [] = []"
| "update_first P f (x # xs) = (if P x then f x # xs else x # update_first P f xs)"

text \<open>
  Saving a loaded document writes its modified paths only: the two saves of the follow
  handlers write \<open>following\<close> (an array path, so the stored version key is
  incremented with it) and \<open>followers\<close>, the tweet handlers write \<open>likes\<close> or
  \<open>comments\<close>.
\<close>

definition save_following :: "store \<Rightarrow> user \<Rightarrow> store option" where
  "save_following s u =
     (if \<not> validate_user u then None
      else Some (s\<lparr>users :=
        update_first (\<lambda>d. uid d = uid u)
          (\<lambda>d. d\<lparr>following := following u, vkey := vkey d + 1\<rparr>) (users s)\<rparr>))"

definition save_followers :: "store \<Rightarrow> user \<Rightarrow> store option" where
  "save_followers s u =
     (if \<not> validate_user u then None
      else Some (s\<lparr>users :=
        update_first (\<lambda>d. uid d = uid u) (\<lambda>d. d\<lparr>followers := followers u\<rparr>) (users s)\<rparr>))"

definition save_likes :: "store \<Rightarrow> tweet \<Rightarrow> store option" where
  "save_likes s t =
     (if \<not> validate_tweet t then None
      else Some (s\<lparr>tweets :=
        update_first (\<lambda>d. tid d = tid t) (\<lambda>d. d\<lparr>likes := likes t\<rparr>) (tweets s)\<rparr>))"

definition save_comments :: "store \<Rightarrow> tweet \<Rightarrow> store option" where
  "save_comments s t =
     (if \<not> validate_tweet t then None
      else Some (s\<lparr>tweets :=
        update_first (\<lambda>d. tid d = tid t) (\<lambda>d. d\<lparr>comments := comments t\<rparr>) (tweets s)\<rparr>))"

section \<open>JavaScript array and string primitives\<close>

text \<open>
  \<open>indexOf\<close> and \<open>includes\<close> on a mongoose array of ObjectIds compare by value:
  the index of the first equal element, or \<open>-1\<close>.
\<close>

fun indexOf :: "'a list \<Rightarrow> 'a \<Rightarrow> int" where
  "indexOf [] x = - 1"
| "indexOf (y # ys) x =
     (if y = x then 0 else (let r = indexOf ys x in if r = - 1 then - 1 else r + 1))"

definition includes_js :: "'a list \<Rightarrow> 'a \<Rightarrow> bool" where
  "includes_js xs x = (indexOf xs x \<noteq> - 1)"

definition push :: "'a list \<Rightarrow> 'a \<Rightarrow> 'a list" where
  "push xs x = xs @ [x]"

text \<open>\<open>xs.splice(i, 1)\<close> for an index \<open>i \<ge> 0\<close>.\<close>

definition splice1 :: "'a list \<Rightarrow> int \<Rightarrow> 'a list" where
  "splice1 xs i = take (nat i) xs @ drop (nat i + 1) xs"

text \<open>\<open>n || 0\<close> on a number.\<close>

definition or0 :: "int \<Rightarrow> int" where
  "or0 n = (if n = 0 then 0 else n)"

text \<open>\<open>s.split(sep)\<close> for a one-character separator: the pieces, empty ones included.\<close>

fun split :: "string \<Rightarrow> char \<Rightarrow> string list" where
  "split [] sep = [[]]"
| "split (c # cs) sep =
     (if c = sep then [] # split cs sep
      else (case split cs sep of [] \<Rightarrow> [[c]] | p # ps \<Rightarrow> (c # p) # ps))"

text \<open>\<open>n[0]\<close>: the first character, \<open>undefined\<close> (here \<open>None\<close>) on the empty string.\<close>

definition first_char :: "string \<Rightarrow> char option" where
  "first_char n = (case n of [] \<Rightarrow> None | c # _ \<Rightarrow> Some c)"

text \<open>\<open>xs.join('')\<close>: an \<open>undefined\<close> element contributes the empty string.\<close>

definition join_empty :: "char option list \<Rightarrow> string" where
  "join_empty xs = concat (map (\<lambda>x. case x of None \<Rightarrow> [] | Some c \<Rightarrow> [c]) xs)"

definition substring :: "string \<Rightarrow> nat \<Rightarrow> nat \<Rightarrow> string" where
  "substring s i j = take (j - i) (drop i s)"

text \<open>
  \<open>s.toUpperCase()\<close> replaces every character by its uppercase mapping, which may be
  longer than one character. The mapping is the runtime's table, which the repository
  does not hold: it is the parameter \<open>upper\<close>.
\<close>

definition toUpperCase :: "(char \<Rightarrow> string) \<Rightarrow> string \<Rightarrow> string" where
  "toUpperCase upper s = concat (map upper s)"

section \<open>Signup\<close>

text \<open>
  Line 114:
  \<^verbatim>\<open>name.split(' ').map(n => n[0]).join('').substring(0, 2).toUpperCase()\<close>
\<close>

definition avatar_of :: "(char \<Rightarrow> string) \<Rightarrow> string \<Rightarrow> string" where
  "avatar_of upper nm =
     toUpperCase upper (substring (join_empty (map first_char (split nm (CHR '' '')))) 0 2)"

text \<open>
  A body field is absent (\<open>None\<close>) or a string; \<open>!field\<close> holds for an absent field and
  for the empty string.
\<close>

definition falsy :: "string option \<Rightarrow> bool" where
  "falsy v = (case v of None \<Rightarrow> True | Some s \<Rightarrow> s = [])"

record auth_body =
  ab_id :: oid
  ab_username :: string
  ab_name :: string
  ab_avatar :: string
  ab_token :: string

text \<open>
  The environment of a signup: the uppercase table of the runtime, the fresh ObjectId of
  \<open>new User\<close>, the result of \<open>bcrypt.hash\<close> and the token signed by \<open>jwt.sign\<close>.
\<close>

definition signup ::
  "(char \<Rightarrow> string) \<Rightarrow> store \<Rightarrow> oid \<Rightarrow> string \<Rightarrow> string \<Rightarrow>
     string option \<Rightarrow> string option \<Rightarrow> string option \<Rightarrow> store \<times> auth_body response" where
  "signup upper s new_id hashedPassword token req_username req_password req_name =
     (if falsy req_username \<or> falsy req_password \<or> falsy req_name
      then (s, Inl (Err 400 ''Please provide all fields''))
      else
        (case (req_username, req_name) of
          (Some un, Some nm) \<Rightarrow>
            (case findUserByName s un of
              Some existingUser \<Rightarrow> (s, Inl (Err 400 ''Username already taken''))
            | None \<Rightarrow>
                (let newUser = \<lparr>uid = new_id, username = un, password = hashedPassword,
                       name = nm, avatar = avatar_of upper nm, bio = [], following = [],
                       followers = 0, vkey = 0\<rparr>
                 in (case insert_user s newUser of
                       None \<Rightarrow> (s, Inl (Err 500 ''Server error''))
                     | Some s' \<Rightarrow>
                         (s', Inr (200, \<lparr>ab_id = uid newUser, ab_username = username newUser,
                            ab_name = name newUser, ab_avatar = avatar newUser,
                            ab_token = token\<rparr>)))))
        | _ \<Rightarrow> (s, Inl (Err 400 ''Please provide all fields''))))"

section \<open>Tweets\<close>

text \<open>\<open>Tweet.find().sort({createdAt: -1})\<close>\<close>

definition sort_createdAt_desc :: "tweet list \<Rightarrow> tweet list" where
  "sort_createdAt_desc ts = sort_key (\<lambda>t. - createdAt t) ts"

definition listTweets :: "store \<Rightarrow> tweet list response" where
  "listTweets s = Inr (200, sort_createdAt_desc (tweets s))"

definition listUserTweets :: "store \<Rightarrow> oid \<Rightarrow> tweet list response" where
  "listUserTweets s i = Inr (200, sort_createdAt_desc (filter (\<lambda>t. userId t = i) (tweets s)))"

text \<open>
  \<open>req_user\<close> is the user loaded by \<open>authenticate\<close>; \<open>new_id\<close> and \<open>now\<close> are the
  ObjectId and the \<open>Date.now\<close> default of \<open>new Tweet\<close>; \<open>req_file\<close> is the file name
  chosen by the upload middleware, when a file was sent.
\<close>

definition createTweet ::
  "store \<Rightarrow> oid \<Rightarrow> int \<Rightarrow> user \<Rightarrow> string option \<Rightarrow> string option \<Rightarrow> store \<times> tweet response" where
  "createTweet s new_id now req_user req_content req_file =
     (case req_content of
        None \<Rightarrow> (s, Inl (Err 400 ''Content is required''))
      | Some c \<Rightarrow>
          if c = [] then (s, Inl (Err 400 ''Content is required''))
          else
            (let image = (case req_file of None \<Rightarrow> None | Some f \<Rightarrow> Some (''/uploads/'' @ f));
                 newTweet = \<lparr>tid = new_id, userId = uid req_user, author = name req_user,
                   handle = ''@'' @ username req_user, tweet_avatar = avatar req_user,
                   content = c, tweet_image = image, likes = [], retweets = 0,
                   comments = [], createdAt = now\<rparr>
             in (case insert_tweet s newTweet of
                   None \<Rightarrow> (s, Inl (Err 500 ''Server error''))
                 | Some s' \<Rightarrow> (s', Inr (201, newTweet)))))"

definition toggleLike :: "store \<Rightarrow> oid \<Rightarrow> oid \<Rightarrow> store \<times> tweet response" where
  "toggleLike s req_user_id tweet_id =
     (case findTweet s tweet_id of
        None \<Rightarrow> (s, Inl (Err 404 ''Tweet not found''))
      | Some tw \<Rightarrow>
          (let likeIndex = indexOf (likes tw) req_user_id;
               tw' = (if likeIndex = - 1 then tw\<lparr>likes := push (likes tw) req_user_id\<rparr>
                      else tw\<lparr>likes := splice1 (likes tw) likeIndex\<rparr>)
           in (case save_likes s tw' of
                 None \<Rightarrow> (s, Inl (Err 500 ''Server error''))
               | Some s' \<Rightarrow> (s', Inr (200, tw')))))"

definition addComment ::
  "store \<Rightarrow> int \<Rightarrow> user \<Rightarrow> oid \<Rightarrow> string option \<Rightarrow> store \<times> tweet option response" where
  "addComment s now req_user tweet_id req_content =
     (if falsy req_content then (s, Inl (Err 400 ''Content is required''))
      else
        (case (req_content, findTweet s tweet_id) of
           (Some c, Some tw) \<Rightarrow>
             (let newComment = \<lparr>comment_user = \<lparr>cu_id = uid req_user, cu_name = name req_user,
                      cu_username = username req_user, cu_avatar = avatar req_user\<rparr>,
                    comment_content = c, comment_createdAt = now\<rparr>;
                  tw' = tw\<lparr>comments := push (comments tw) newComment\<rparr>
              in (case save_comments s tw' of
                    None \<Rightarrow> (s, Inl (Err 500 ''Server error''))
                  | Some s' \<Rightarrow> (s', Inr (200, findTweet s' tweet_id))))
         | _ \<Rightarrow> (s, Inl (Err 404 ''Tweet not found''))))"

section \<open>Follow and unfollow\<close>

text \<open>
  Both handlers use \<open>req.user._id\<close> only, and load the acting user again. A missing
  acting user makes \<open>currentUser.following\<close> throw, which the \<open>catch\<close> answers with 500.
  The two saves are separate writes: when the second one is rejected the first one stays.
\<close>

definition follow :: "store \<Rightarrow> oid \<Rightarrow> oid \<Rightarrow> store \<times> (oid list \<times> string) response" where
  "follow s req_user_id target_id =
     (case findUser s target_id of
        None \<Rightarrow> (s, Inl (Err 404 ''User not found''))
      | Some userToFollow \<Rightarrow>
          (case findUser s req_user_id of
             None \<Rightarrow> (s, Inl (Err 500 ''Server error''))
           | Some currentUser \<Rightarrow>
               if includes_js (following currentUser) (uid userToFollow)
               then (s, Inl (Err 400 ''Already following this user''))
               else
                 (let currentUser' =
                        currentUser\<lparr>following := push (following currentUser) (uid userToFollow)\<rparr>;
                      userToFollow' =
                        userToFollow\<lparr>followers := or0 (followers userToFollow) + 1\<rparr>
                  in (case save_following s currentUser' of
                        None \<Rightarrow> (s, Inl (Err 500 ''Server error''))
                      | Some s1 \<Rightarrow>
                          (case save_followers s1 userToFollow' of
                             None \<Rightarrow> (s1, Inl (Err 500 ''Server error''))
                           | Some s2 \<Rightarrow>
                               (s2, Inr (200, (following currentUser', username userToFollow'))))))))"

definition unfollow :: "store \<Rightarrow> oid \<Rightarrow> oid \<Rightarrow> store \<times> (oid list \<times> string) response" where
  "unfollow s req_user_id target_id =
     (case findUser s target_id of
        None \<Rightarrow> (s, Inl (Err 404 ''User not found''))
      | Some userToUnfollow \<Rightarrow>
          (case findUser s req_user_id of
             None \<Rightarrow> (s, Inl (Err 500 ''Server error''))
           | Some currentUser \<Rightarrow>
               (let index = indexOf (following currentUser) (uid userToUnfollow)
                in if index = - 1
                   then (s, Inl (Err 400 ''Not following this user''))
                   else
                     (let currentUser' =
                            currentUser\<lparr>following := splice1 (following currentUser) index\<rparr>;
                          userToUnfollow' =
                            userToUnfollow\<lparr>followers :=
                              max 0 (or0 (followers userToUnfollow) - 1)\<rparr>
                      in (case save_following s currentUser' of
                            None \<Rightarrow> (s, Inl (Err 500 ''Server error''))
                          | Some s1 \<Rightarrow>
                              (case save_followers s1 userToUnfollow' of
                                 None \<Rightarrow> (s1, Inl (Err 500 ''Server error''))
                               | Some s2 \<Rightarrow>
                                   (s2, Inr (200,
                                      (following currentUser', username userToUnfollow')))))))))"

section \<open>Profiles\<close>

text \<open>
  \<open>res.json(doc)\<close> serialises a document with its \<open>_id\<close>, every path of its schema
  and the version key \<open>__v\<close>.
\<close>

datatype json =
    JStr string
  | JNum int
  | JId oid
  | JArr "json list"
  | JObj "(string \<times> json) list"

definition user_json :: "user \<Rightarrow> json" where
  "user_json u = JObj
     [(''_id'', JId (uid u)), (''username'', JStr (username u)),
      (''password'', JStr (password u)), (''name'', JStr (name u)),
      (''avatar'', JStr (avatar u)), (''bio'', JStr (bio u)),
      (''following'', JArr (map JId (following u))), (''followers'', JNum (followers u)),
      (''__v'', JNum (vkey u))]"

text \<open>The value of a key of a JSON object.\<close>

fun field :: "json \<Rightarrow> string \<Rightarrow> json option" where
  "field (JObj kvs) k = map_of kvs k"
| "field _ k = None"

text \<open>
  The \<open>:id\<close> segment of a path as \<open>findById\<close> casts it: an ObjectId, or a string
  that is none, for which the cast throws and the handler's \<open>catch\<close> answers 500.
\<close>

datatype id_param = ObjectId oid | Malformed string

text \<open>\<open>GET /api/users/:id\<close>: \<open>res.json(user)\<close>, the whole document.\<close>

definition getProfile :: "store \<Rightarrow> id_param \<Rightarrow> json response" where
  "getProfile s p =
     (case p of
        Malformed x \<Rightarrow> Inl (Err 500 ''Server error'')
      | ObjectId i \<Rightarrow>
          (case findUser s i of
             None \<Rightarrow> Inl (Err 404 ''User not found'')
           | Some u \<Rightarrow> Inr (200, user_json u)))"

text \<open>
  \<open>GET /api/users/:id/following\<close>: \<open>populate('following', 'username name avatar')\<close>
  replaces each identifier by the selected paths of the user it names, and drops an
  identifier that names no user.
\<close>

definition populated :: "user \<Rightarrow> json" where
  "populated u = JObj
     [(''_id'', JId (uid u)), (''username'', JStr (username u)),
      (''name'', JStr (name u)), (''avatar'', JStr (avatar u))]"

definition getFollowing :: "store \<Rightarrow> id_param \<Rightarrow> json response" where
  "getFollowing s p =
     (case p of
        Malformed x \<Rightarrow> Inl (Err 500 ''Server error'')
      | ObjectId i \<Rightarrow>
          (case findUser s i of
             None \<Rightarrow> Inl (Err 404 ''User not found'')
           | Some u \<Rightarrow>
               Inr (200, JArr (concat (map (\<lambda>j. case findUser s j of
                                                    None \<Rightarrow> []
                                                  | Some f \<Rightarrow> [populated f])
                                         (following u))))))"

section \<open>Authentication and login\<close>

text \<open>
  What the \<open>Authorization\<close> header and \<open>jwt.verify\<close> give: no token, a token that does
  not verify, or the \<open>userId\<close> of a verified token.
\<close>

datatype token = NoToken | InvalidToken | Token oid

definition authenticate :: "store \<Rightarrow> token \<Rightarrow> error + user" where
  "authenticate s tok =
     (case tok of
        NoToken \<Rightarrow> Inl (Err 401 ''Unauthorized'')
      | InvalidToken \<Rightarrow> Inl (Err 401 ''Invalid token'')
      | Token i \<Rightarrow>
          (case findUser s i of
             None \<Rightarrow> Inl (Err 401 ''User not found'')
           | Some u \<Rightarrow> Inr u))"

text \<open>\<open>validPassword\<close> is the answer of \<open>bcrypt.compare\<close> for the stored hash.\<close>

definition login :: "store \<Rightarrow> (string \<Rightarrow> string \<Rightarrow> bool) \<Rightarrow> string \<Rightarrow> string \<Rightarrow> string \<Rightarrow> auth_body response" where
  "login s compare token req_username req_password =
     (case findUserByName s req_username of
        None \<Rightarrow> Inl (Err 401 ''Invalid credentials'')
      | Some u \<Rightarrow>
          if \<not> compare req_password (password u) then Inl (Err 401 ''Invalid credentials'')
          else Inr (200, \<lparr>ab_id = uid u, ab_username = username u, ab_name = name u,
                 ab_avatar = avatar u, ab_token = token\<rparr>))"

section \<open>The server as a transition system\<close>

text \<open>
  One constructor for each route, with what the request and its environment supply (for
  a signup the runtime's uppercase table is part of it). The routes behind
  \<open>authenticate\<close> carry the token; a request that is refused there leaves the store
  as it is.
\<close>

datatype request =
    Signup "char \<Rightarrow> string" oid string string "string option" "string option" "string option"
  | Login string string
  | ListTweets
  | CreateTweet token oid int "string option" "string option"
  | ToggleLike token oid
  | Follow token oid
  | Unfollow token oid
  | GetFollowing id_param
  | GetProfile id_param
  | ListUserTweets oid
  | AddComment token int oid "string option"

fun step :: "store \<Rightarrow> request \<Rightarrow> store" where
  "step s (Signup upper new_id hashed tok un pw nm) =
     fst (signup upper s new_id hashed tok un pw nm)"
| "step s (Login un pw) = s"
| "step s ListTweets = s"
| "step s (CreateTweet tok new_id now c f) =
     (case authenticate s tok of
        Inl e \<Rightarrow> s
      | Inr u \<Rightarrow> fst (createTweet s new_id now u c f))"
| "step s (ToggleLike tok i) =
     (case authenticate s tok of
        Inl e \<Rightarrow> s
      | Inr u \<Rightarrow> fst (toggleLike s (uid u) i))"
| "step s (Follow tok i) =
     (case authenticate s tok of
        Inl e \<Rightarrow> s
      | Inr u \<Rightarrow> fst (follow s (uid u) i))"
| "step s (Unfollow tok i) =
     (case authenticate s tok of
        Inl e \<Rightarrow> s
      | Inr u \<Rightarrow> fst (unfollow s (uid u) i))"
| "step s (GetFollowing p) = s"
| "step s (GetProfile p) = s"
| "step s (ListUserTweets i) = s"
| "step s (AddComment tok now i c) =
     (case authenticate s tok of
        Inl e \<Rightarrow> s
      | Inr u \<Rightarrow> fst (addComment s now u i c))"

definition run :: "store \<Rightarrow> request list \<Rightarrow> store" where
  "run s rs = foldl step s rs"

text \<open>
  The invariants of the stored documents: the schema's required paths are filled, a
  follower counter is not negative, a like list names a user at most once, and no tweet
  has been retweeted.
\<close>

definition wf_user :: "user \<Rightarrow> bool" where
  "wf_user u = (validate_user u \<and> 0 \<le> followers u)"

definition wf_tweet :: "tweet \<Rightarrow> bool" where
  "wf_tweet t = (validate_tweet t \<and> distinct (likes t) \<and> retweets t = 0)"

definition wf_store :: "store \<Rightarrow> bool" where
  "wf_store s = (list_all wf_user (users s) \<and> list_all wf_tweet (tweets s))"

section \<open>The avatar label as the specification words it\<close>

text \<open>
  The specification's derivation: the first character of each token, the tokens being
  the maximal runs of characters that are not separators; concatenated, uppercased, cut
  to two characters.
\<close>

fun tokens_from :: "(char \<Rightarrow> bool) \<Rightarrow> string \<Rightarrow> string \<Rightarrow> string list" where
  "tokens_from sep cur [] = (if cur = [] then [] else [cur])"
| "tokens_from sep cur (c # cs) =
     (if sep c then (if cur = [] then tokens_from sep [] cs else cur # tokens_from sep [] cs)
      else tokens_from sep (cur @ [c]) cs)"

definition tokens :: "(char \<Rightarrow> bool) \<Rightarrow> string \<Rightarrow> string list" where
  "tokens sep s = tokens_from sep [] s"

definition spec_avatar :: "(char \<Rightarrow> string) \<Rightarrow> (char \<Rightarrow> bool) \<Rightarrow> string \<Rightarrow> string" where
  "spec_avatar upper sep nm =
     take 2 (toUpperCase upper (concat (map (take 1) (tokens sep nm))))"

text \<open>Whitespace: tab, line feed, vertical tab, form feed, carriage return, space.\<close>

definition is_whitespace :: "char \<Rightarrow> bool" where
  "is_whitespace c = ((of_char c :: nat) \<in> {9, 10, 11, 12, 13, 32})"

definition is_space :: "char \<Rightarrow> bool" where
  "is_space c = (c = CHR '' '')"

text \<open>
  The characters that open a token: those that are no separator and stand at the start
  or after a separator.
\<close>

fun initials :: "(char \<Rightarrow> bool) \<Rightarrow> bool \<Rightarrow> string \<Rightarrow> string" where
  "initials sep at_start [] = []"
| "initials sep at_start (c # cs) =
     (if sep c then initials sep True cs
      else if at_start then c # initials sep False cs
      else initials sep False cs)"

section \<open>Example data\<close>

text \<open>
  An uppercase table for the examples: the runtime's mapping on the ASCII characters and
  on the sharp s (U+00DF, which it maps to "SS"). The examples use it on such characters
  only.
\<close>

definition ex_upper :: "char \<Rightarrow> string" where
  "ex_upper c =
     (if c = CHR 0xDF then ''SS''
      else if 97 \<le> (of_char c :: nat) \<and> (of_char c :: nat) \<le> 122
      then [char_of ((of_char c :: nat) - 32)]
      else [c])"

definition ex_ann :: user where
  "ex_ann = \<lparr>uid = 1, username = ''ann'', password = ''h1'', name = ''Ann Lee'',
     avatar = ''AL'', bio = [], following = [2], followers = 0, vkey = 1\<rparr>"

definition ex_bob :: user where
  "ex_bob = \<lparr>uid = 2, username = ''bob'', password = ''h2'', name = ''Bob'',
     avatar = ''B'', bio = [], following = [], followers = 1, vkey = 0\<rparr>"

definition ex_tweet :: tweet where
  "ex_tweet = \<lparr>tid = 10, userId = 1, author = ''Ann Lee'', handle = ''@ann'',
     tweet_avatar = ''AL'', content = ''hello'', tweet_image = None, likes = [2],
     retweets = 0, comments = [], createdAt = 1000\<rparr>"

definition ex_store :: store where
  "ex_store = \<lparr>users = [ex_ann, ex_bob], tweets = [ex_tweet]\<rparr>"

text \<open>The requests that build \<open>ex_store\<close> from the empty store.\<close>

definition ex_requests :: "request list" where
  "ex_requests =
     [Signup ex_upper 1 ''h1'' ''t1'' (Some ''ann'') (Some ''pw'') (Some ''Ann Lee''),
      Signup ex_upper 2 ''h2'' ''t2'' (Some ''bob'') (Some ''pw'') (Some ''Bob''),
      CreateTweet (Token 1) 10 1000 (Some ''hello'') None,
      Follow (Token 1) 2,
      ToggleLike (Token 2) 10]"

definition tab_name :: string where
  "tab_name = [CHR ''a'', CHR 0x09, CHR ''b'']"

text \<open>The name of two tokens, each a sharp s.\<close>

definition sharp_s_name :: string where
  "sharp_s_name = [CHR 0xDF, CHR '' '', CHR 0xDF]"

definition ex_reply :: tweet where
  "ex_reply = \<lparr>tid = 11, userId = 2, author = ''Bob'', handle = ''@bob'',
     tweet_avatar = ''B'', content = ''hi'', tweet_image = None, likes = [],
     retweets = 0, comments = [], createdAt = 2000\<rparr>"

text \<open>A user whose name is one space: the signup of \<open>ex_blank_requests\<close> stores it.\<close>

definition ex_blank :: user where
  "ex_blank = \<lparr>uid = 1, username = ''sam'', password = ''h1'', name = '' '',
     avatar = [], bio = [], following = [], followers = 0, vkey = 0\<rparr>"

definition ex_blank_store :: store where
  "ex_blank_store = \<lparr>users = [ex_blank], tweets = []\<rparr>"

definition ex_blank_requests :: "request list" where
  "ex_blank_requests =
     [Signup ex_upper 1 ''h1'' ''t1'' (Some ''sam'') (Some ''pw'') (Some '' '')]"

section \<open>Auxiliary notions of the statements\<close>

text \<open>
  The projection the specification names for profiles: username, name and avatar.
\<close>

definition profile_projection :: "user \<Rightarrow> json" where
  "profile_projection u = JObj
     [(''username'', JStr (username u)), (''name'', JStr (name u)),
      (''avatar'', JStr (avatar u))]"

text \<open>Two versions of a tweet carry the same author snapshot.\<close>

definition same_snapshot :: "tweet \<Rightarrow> tweet \<Rightarrow> bool" where
  "same_snapshot t t' =
     (author t' = author t \<and> handle t' = handle t \<and> tweet_avatar t' = tweet_avatar t)"

section \<open>Arrays, lookups and updates\<close>

lemma indexOf_ge: "- 1 \<le> indexOf xs x"
  by (induction xs) (auto simp: Let_def)

lemma indexOf_notin: "(indexOf xs x = - 1) = (x \<notin> set xs)"
proof (induction xs)
  case Nil
  show ?case by simp
next
  case (Cons y ys)
  have "- 1 \<le> indexOf ys x" by (rule indexOf_ge)
  with Cons show ?case by (auto simp: Let_def)
qed

lemma splice1_indexOf: "x \<in> set xs \<Longrightarrow> splice1 xs (indexOf xs x) = remove1 x xs"
proof (induction xs)
  case Nil
  then show ?case by simp
next
  case (Cons y ys)
  show ?case
  proof (cases "y = x")
    case True
    then show ?thesis by (simp add: splice1_def)
  next
    case False
    with Cons.prems have mem: "x \<in> set ys" by simp
    then have ne: "indexOf ys x \<noteq> - 1" by (simp add: indexOf_notin)
    have ge: "- 1 \<le> indexOf ys x" by (rule indexOf_ge)
    from ne ge have nn: "0 \<le> indexOf ys x" by arith
    then have "nat (indexOf ys x + 1) = Suc (nat (indexOf ys x))" by arith
    with False ne Cons.IH [OF mem] show ?thesis
      by (simp add: splice1_def Let_def)
  qed
qed

lemma splice1_push: "x \<notin> set xs \<Longrightarrow> splice1 (push xs x) (indexOf (push xs x) x) = xs"
  by (simp add: splice1_indexOf push_def remove1_append)

lemma includes_js_mem: "includes_js xs x = (x \<in> set xs)"
  by (simp add: includes_js_def indexOf_notin)

lemma find_update_first:
  assumes "\<And>x. key (f x) = key x"
  shows "find (\<lambda>x. key x = j) (update_first (\<lambda>x. key x = i) f xs) =
         (if i = j then map_option f (find (\<lambda>x. key x = j) xs)
          else find (\<lambda>x. key x = j) xs)"
  using assms by (induction xs) auto

lemma findUser_uid: "findUser s i = Some u \<Longrightarrow> uid u = i"
  by (auto simp: findUser_def find_Some_iff)

lemma findUser_mem: "findUser s i = Some u \<Longrightarrow> u \<in> set (users s)"
  by (auto simp: findUser_def find_Some_iff)

lemma findTweet_tid: "findTweet s i = Some t \<Longrightarrow> tid t = i"
  by (auto simp: findTweet_def find_Some_iff)

lemma findTweet_mem: "findTweet s i = Some t \<Longrightarrow> t \<in> set (tweets s)"
  by (auto simp: findTweet_def find_Some_iff)

section \<open>The avatar label\<close>

lemma split_nonempty: "split s sep \<noteq> []"
  by (induction s) (auto split: list.splits)

lemma split_initials:
  "join_empty (map first_char (split s sp)) = initials (\<lambda>c. c = sp) True s \<and>
   join_empty (map first_char (tl (split s sp))) = initials (\<lambda>c. c = sp) False s"
proof (induction s)
  case Nil
  show ?case by (simp add: join_empty_def first_char_def)
next
  case (Cons c cs)
  then show ?case
    using split_nonempty [of cs sp]
    by (auto simp: join_empty_def first_char_def split: list.splits)
qed

lemma tokens_from_initials:
  "concat (map (take 1) (tokens_from sep cur s)) = take 1 cur @ initials sep (cur = []) s"
  by (induction s arbitrary: cur) (auto simp: take_Suc Suc_le_eq split: list.splits)

lemma avatar_of_initials:
  "avatar_of upper nm =
     toUpperCase upper (take 2 (concat (map (take 1) (tokens is_space nm))))"
proof -
  have "(\<lambda>c. c = CHR '' '') = is_space"
    by (auto simp: is_space_def fun_eq_iff)
  then show ?thesis
    using split_initials [of nm "CHR '' ''"] tokens_from_initials [of is_space "[]" nm]
    by (simp add: avatar_of_def tokens_def substring_def)
qed

lemma toUpperCase_take2:
  assumes "list_all (\<lambda>c. length (upper c) = 1) (take 2 xs)"
  shows "take 2 (toUpperCase upper xs) = toUpperCase upper (take 2 xs) \<and>
         length (toUpperCase upper (take 2 xs)) \<le> 2"
proof (cases xs)
  case Nil
  then show ?thesis by (simp add: toUpperCase_def)
next
  case (Cons a ys)
  with assms obtain x where x: "upper a = [x]"
    by (auto simp: length_Suc_conv)
  show ?thesis
  proof (cases ys)
    case Nil
    with Cons x show ?thesis by (simp add: toUpperCase_def)
  next
    case (Cons b zs)
    with \<open>xs = a # ys\<close> assms obtain y where y: "upper b = [y]"
      by (auto simp: length_Suc_conv)
    from Cons \<open>xs = a # ys\<close> x y show ?thesis by (simp add: toUpperCase_def)
  qed
qed

text \<open>
  C5, as amended. Take the initials of a name to be the first characters of its tokens,
  the tokens being separated by the space character (U+0020) only. For every name and
  every uppercase table that maps each of the first two initials to one character (as
  the runtime's does for the ASCII characters), the avatar label computed by signup is
  the initials concatenated, uppercased and cut to two characters, and it has at most
  two characters. The name "Ann Lee" gives "AL" and the name "X" gives "X", for a table
  that leaves A, L and X as they are.
\<close>

theorem avatar_of_space_tokens:
  "(list_all (\<lambda>c. length (upper c) = 1)
      (take 2 (concat (map (take 1) (tokens is_space nm)))) \<longrightarrow>
      avatar_of upper nm = spec_avatar upper is_space nm \<and>
      length (avatar_of upper nm) \<le> 2) \<and>
   (upper (CHR ''A'') = ''A'' \<and> upper (CHR ''L'') = ''L'' \<longrightarrow>
      avatar_of upper ''Ann Lee'' = ''AL'') \<and>
   (upper (CHR ''X'') = ''X'' \<longrightarrow> avatar_of upper ''X'' = ''X'')"
proof -
  let ?ini = "\<lambda>n. concat (map (take 1) (tokens is_space n))"
  have a: "avatar_of upper nm = toUpperCase upper (take 2 (?ini nm))"
    by (rule avatar_of_initials)
  have b: "avatar_of upper nm = spec_avatar upper is_space nm \<and>
           length (avatar_of upper nm) \<le> 2"
    if "list_all (\<lambda>c. length (upper c) = 1) (take 2 (?ini nm))"
    using toUpperCase_take2 [OF that] a by (simp add: spec_avatar_def)
  have i1: "?ini ''Ann Lee'' = ''AL''"
    by code_simp
  have i2: "?ini ''X'' = ''X''"
    by code_simp
  have c: "avatar_of upper ''Ann Lee'' = ''AL''"
    if "upper (CHR ''A'') = ''A'' \<and> upper (CHR ''L'') = ''L''"
    using that by (simp only: avatar_of_initials i1) (simp add: toUpperCase_def)
  have d: "avatar_of upper ''X'' = ''X''" if "upper (CHR ''X'') = ''X''"
    using that by (simp only: avatar_of_initials i2) (simp add: toUpperCase_def)
  from b c d show ?thesis by blast
qed

theorem avatar_of_space_tokens_witness:
  "list_all (\<lambda>c. length (ex_upper c) = 1)
     (take 2 (concat (map (take 1) (tokens is_space ''ann  van  lee'')))) \<and>
   avatar_of ex_upper ''ann  van  lee'' = spec_avatar ex_upper is_space ''ann  van  lee'' \<and>
   length (avatar_of ex_upper ''ann  van  lee'') \<le> 2 \<and>
   avatar_of ex_upper ''ann  van  lee'' = ''AV'' \<and>
   ex_upper (CHR ''A'') = ''A'' \<and> ex_upper (CHR ''L'') = ''L'' \<and>
   avatar_of ex_upper ''Ann Lee'' = ''AL'' \<and>
   ex_upper (CHR ''X'') = ''X'' \<and> avatar_of ex_upper ''X'' = ''X''"
proof -
  note t = avatar_of_space_tokens [of ex_upper "''ann  van  lee''"]
  have h1: "list_all (\<lambda>c. length (ex_upper c) = 1)
     (take 2 (concat (map (take 1) (tokens is_space ''ann  van  lee''))))"
    by code_simp
  have h2: "ex_upper (CHR ''A'') = ''A''" "ex_upper (CHR ''L'') = ''L''"
    by (simp_all add: ex_upper_def)
  have h3: "ex_upper (CHR ''X'') = ''X''"
    by (simp add: ex_upper_def)
  have v: "avatar_of ex_upper ''ann  van  lee'' = ''AV''"
    by code_simp
  from t h1 have c1:
    "avatar_of ex_upper ''ann  van  lee'' = spec_avatar ex_upper is_space ''ann  van  lee''"
    and c2: "length (avatar_of ex_upper ''ann  van  lee'') \<le> 2"
    by blast+
  from t h2 have c3: "avatar_of ex_upper ''Ann Lee'' = ''AL''"
    by blast
  from t h3 have c4: "avatar_of ex_upper ''X'' = ''X''"
    by blast
  from h1 c1 c2 v h2 c3 h3 c4 show ?thesis by (intro conjI)
qed

text \<open>
  C5, as stated, fails twice. Where a whitespace character other than the space
  separates two tokens: for the name a, tab, b the code gives "A", and the derivation
  over whitespace-separated tokens gives "AB". And where uppercasing lengthens an
  initial, because the code cuts to two characters before it uppercases: for the name of
  two tokens that are each a sharp s the code gives "SSSS", four characters, and the
  derivation (over whitespace-separated and over space-separated tokens alike) gives
  "SS".
\<close>

theorem avatar_of_whitespace_counterexample:
  "avatar_of ex_upper tab_name = ''A'' \<and>
   spec_avatar ex_upper is_whitespace tab_name = ''AB'' \<and>
   avatar_of ex_upper sharp_s_name = ''SSSS'' \<and>
   spec_avatar ex_upper is_whitespace sharp_s_name = ''SS'' \<and>
   spec_avatar ex_upper is_space sharp_s_name = ''SS''"
  by code_simp

section \<open>Follow\<close>

text \<open>
  C4. When A's following list already contains B, Follow(A, B) fails with status 400
  ("Already following this user") and the store is returned unchanged: nothing is
  appended to A's following list and B's followers counter is not modified.
\<close>

theorem follow_already_following:
  assumes "findUser s a = Some ua" and "findUser s b = Some ub" and "b \<in> set (following ua)"
  shows "follow s a b = (s, Inl (Err 400 ''Already following this user''))"
  using assms findUser_uid [OF assms(2)]
  by (simp add: follow_def includes_js_mem)

theorem follow_already_following_witness:
  "findUser ex_store 1 = Some ex_ann \<and> findUser ex_store 2 = Some ex_bob \<and>
   2 \<in> set (following ex_ann) \<and>
   follow ex_store 1 2 = (ex_store, Inl (Err 400 ''Already following this user''))"
proof -
  have h1: "findUser ex_store 1 = Some ex_ann"
    by (simp add: findUser_def ex_store_def ex_ann_def)
  have h2: "findUser ex_store 2 = Some ex_bob"
    by (simp add: findUser_def ex_store_def ex_ann_def ex_bob_def)
  have h3: "2 \<in> set (following ex_ann)"
    by (simp add: ex_ann_def)
  from follow_already_following [OF h1 h2 h3] h1 h2 h3 show ?thesis by simp
qed

section \<open>The invariants hold in every store the server can reach\<close>

lemma list_all_update_first:
  "list_all P xs \<Longrightarrow> (\<And>x. P x \<Longrightarrow> P (f x)) \<Longrightarrow> list_all P (update_first Q f xs)"
  by (induction xs) auto

lemma length_update_first: "length (update_first Q f xs) = length xs"
  by (induction xs) auto

lemma update_first_nth:
  "find Q xs = Some t \<Longrightarrow> \<exists>k<length xs. xs ! k = t \<and> update_first Q f xs = xs[k := f t]"
proof (induction xs)
  case Nil
  then show ?case by simp
next
  case (Cons x xs)
  show ?case
  proof (cases "Q x")
    case True
    with Cons.prems have "x = t" by simp
    with True have "(x # xs) ! 0 = t \<and> update_first Q f (x # xs) = (x # xs)[0 := f t]"
      by simp
    then show ?thesis by blast
  next
    case False
    with Cons.prems have "find Q xs = Some t" by simp
    from Cons.IH [OF this] obtain k where
      k: "k < length xs" "xs ! k = t" "update_first Q f xs = xs[k := f t]" by blast
    with False have "Suc k < length (x # xs) \<and> (x # xs) ! Suc k = t \<and>
        update_first Q f (x # xs) = (x # xs)[Suc k := f t]"
      by simp
    then show ?thesis by blast
  qed
qed

lemma wf_store_users:
  "wf_store s \<Longrightarrow> (\<And>d. wf_user d \<Longrightarrow> wf_user (f d)) \<Longrightarrow>
   wf_store (s\<lparr>users := update_first Q f (users s)\<rparr>)"
  by (simp add: wf_store_def list_all_update_first)

lemma wf_store_tweets:
  "wf_store s \<Longrightarrow> (\<And>d. wf_tweet d \<Longrightarrow> wf_tweet (f d)) \<Longrightarrow>
   wf_store (s\<lparr>tweets := update_first Q f (tweets s)\<rparr>)"
  by (simp add: wf_store_def list_all_update_first)

lemma wf_store_findUser: "wf_store s \<Longrightarrow> findUser s i = Some u \<Longrightarrow> wf_user u"
  by (auto simp: wf_store_def list_all_iff dest: findUser_mem)

lemma wf_store_findTweet: "wf_store s \<Longrightarrow> findTweet s i = Some t \<Longrightarrow> wf_tweet t"
  by (auto simp: wf_store_def list_all_iff dest: findTweet_mem)

lemma wf_empty_store: "wf_store empty_store"
  by (simp add: wf_store_def empty_store_def)

lemma signup_wf: "wf_store s \<Longrightarrow> wf_store (fst (signup up s i h k un pw nm))"
  by (auto simp: signup_def insert_user_def wf_store_def wf_user_def Let_def
           split: option.splits if_splits)

lemma createTweet_wf: "wf_store s \<Longrightarrow> wf_store (fst (createTweet s i n u c f))"
  by (auto simp: createTweet_def insert_tweet_def wf_store_def wf_tweet_def Let_def
           split: option.splits if_splits)

lemma toggled_distinct:
  "distinct xs \<Longrightarrow>
   distinct (if indexOf xs x = - 1 then push xs x else splice1 xs (indexOf xs x))"
  by (auto simp: indexOf_notin push_def splice1_indexOf)

lemma toggleLike_wf:
  assumes "wf_store s"
  shows "wf_store (fst (toggleLike s u i))"
proof (cases "findTweet s i")
  case None
  with assms show ?thesis by (simp add: toggleLike_def)
next
  case (Some tw)
  from assms Some have "wf_tweet tw" by (rule wf_store_findTweet)
  then have d: "distinct (likes tw)" by (simp add: wf_tweet_def)
  let ?l = "if indexOf (likes tw) u = - 1 then push (likes tw) u
            else splice1 (likes tw) (indexOf (likes tw) u)"
  from d have dl: "distinct ?l" by (rule toggled_distinct)
  have "wf_store (s\<lparr>tweets := update_first (\<lambda>d. tid d = tid tw) (\<lambda>d. d\<lparr>likes := ?l\<rparr>) (tweets s)\<rparr>)"
    using assms
  proof (rule wf_store_tweets)
    fix d assume "wf_tweet d"
    with dl show "wf_tweet (d\<lparr>likes := ?l\<rparr>)"
      by (simp add: wf_tweet_def validate_tweet_def)
  qed
  with assms Some show ?thesis
    by (simp add: toggleLike_def save_likes_def Let_def split: if_splits)
qed

lemma addComment_wf:
  assumes "wf_store s"
  shows "wf_store (fst (addComment s n u i c))"
proof -
  have "wf_store (s\<lparr>tweets := update_first Q (\<lambda>d. d\<lparr>comments := cs\<rparr>) (tweets s)\<rparr>)" for Q cs
    using assms by (rule wf_store_tweets) (simp add: wf_tweet_def validate_tweet_def)
  with assms show ?thesis
    by (auto simp: addComment_def save_comments_def Let_def split: option.splits if_splits)
qed

lemma save_following_wf: "wf_store s \<Longrightarrow> save_following s u = Some s' \<Longrightarrow> wf_store s'"
proof -
  assume w: "wf_store s" and sv: "save_following s u = Some s'"
  have "wf_store (s\<lparr>users := update_first (\<lambda>d. uid d = uid u)
      (\<lambda>d. d\<lparr>following := following u, vkey := vkey d + 1\<rparr>) (users s)\<rparr>)"
    using w by (rule wf_store_users) (simp add: wf_user_def validate_user_def)
  with sv show ?thesis by (simp add: save_following_def split: if_splits)
qed

lemma save_followers_wf:
  "wf_store s \<Longrightarrow> 0 \<le> followers u \<Longrightarrow> save_followers s u = Some s' \<Longrightarrow> wf_store s'"
proof -
  assume w: "wf_store s" and f: "0 \<le> followers u" and sv: "save_followers s u = Some s'"
  have "wf_store (s\<lparr>users := update_first (\<lambda>d. uid d = uid u) (\<lambda>d. d\<lparr>followers := followers u\<rparr>) (users s)\<rparr>)"
    using w by (rule wf_store_users) (simp add: wf_user_def validate_user_def f)
  with sv show ?thesis by (simp add: save_followers_def split: if_splits)
qed



lemma follow_wf:
  assumes w: "wf_store s"
  shows "wf_store (fst (follow s a b))"
proof (cases "findUser s b")
  case None
  with w show ?thesis by (simp add: follow_def)
next
  case ub: (Some userToFollow)
  show ?thesis
  proof (cases "findUser s a")
    case None
    with w ub show ?thesis by (simp add: follow_def)
  next
    case ua: (Some currentUser)
    let ?cu = "currentUser\<lparr>following := push (following currentUser) (uid userToFollow)\<rparr>"
    let ?tu = "userToFollow\<lparr>followers := or0 (followers userToFollow) + 1\<rparr>"
    from wf_store_findUser [OF w ub] have nn: "0 \<le> followers ?tu"
      by (simp add: wf_user_def or0_def)
    show ?thesis
    proof (cases "includes_js (following currentUser) (uid userToFollow)")
      case True
      with w ub ua show ?thesis by (simp add: follow_def)
    next
      case False
      show ?thesis
      proof (cases "save_following s ?cu")
        case None
        with w ub ua False show ?thesis by (simp add: follow_def Let_def)
      next
        case s1: (Some s1)
        from w s1 have w1: "wf_store s1" by (rule save_following_wf)
        show ?thesis
        proof (cases "save_followers s1 ?tu")
          case None
          with w1 ub ua False s1 show ?thesis by (simp add: follow_def Let_def)
        next
          case s2: (Some s2)
          from w1 nn s2 have "wf_store s2" by (rule save_followers_wf)
          with ub ua False s1 s2 show ?thesis by (simp add: follow_def Let_def)
        qed
      qed
    qed
  qed
qed

lemma unfollow_wf:
  assumes w: "wf_store s"
  shows "wf_store (fst (unfollow s a b))"
proof (cases "findUser s b")
  case None
  with w show ?thesis by (simp add: unfollow_def)
next
  case ub: (Some userToUnfollow)
  show ?thesis
  proof (cases "findUser s a")
    case None
    with w ub show ?thesis by (simp add: unfollow_def)
  next
    case ua: (Some currentUser)
    let ?ix = "indexOf (following currentUser) (uid userToUnfollow)"
    let ?cu = "currentUser\<lparr>following := splice1 (following currentUser) ?ix\<rparr>"
    let ?tu = "userToUnfollow\<lparr>followers := max 0 (or0 (followers userToUnfollow) - 1)\<rparr>"
    have nn: "0 \<le> followers ?tu" by simp
    show ?thesis
    proof (cases "?ix = - 1")
      case True
      with w ub ua show ?thesis by (simp add: unfollow_def)
    next
      case False
      show ?thesis
      proof (cases "save_following s ?cu")
        case None
        with w ub ua False show ?thesis by (simp add: unfollow_def Let_def)
      next
        case s1: (Some s1)
        from w s1 have w1: "wf_store s1" by (rule save_following_wf)
        show ?thesis
        proof (cases "save_followers s1 ?tu")
          case None
          with w1 ub ua False s1 show ?thesis by (simp add: unfollow_def Let_def)
        next
          case s2: (Some s2)
          from w1 nn s2 have "wf_store s2" by (rule save_followers_wf)
          with ub ua False s1 s2 show ?thesis by (simp add: unfollow_def Let_def)
        qed
      qed
    qed
  qed
qed

lemma step_wf: "wf_store s \<Longrightarrow> wf_store (step s r)"
  by (cases r)
     (simp_all add: signup_wf createTweet_wf toggleLike_wf follow_wf unfollow_wf addComment_wf
        split: sum.splits)

lemma run_wf: "wf_store s \<Longrightarrow> wf_store (run s rs)"
  unfolding run_def by (induction rs arbitrary: s) (simp_all add: step_wf)

section \<open>Reachable stores\<close>

lemma run_ex_requests: "run empty_store ex_requests = ex_store"
  by code_simp

section \<open>The retweet counter\<close>

text \<open>
  C9. The retweets counter of a tweet is 0 when CreateTweet creates it, and it is 0 for
  every tweet of every store that any sequence of requests (every route of the server)
  reaches from the empty store.
\<close>

theorem retweets_always_zero:
  "(\<forall>t \<in> set (tweets (run empty_store rs)). retweets t = 0) \<and>
   (\<forall>s i n u c f s' k t. createTweet s i n u c f = (s', Inr (k, t)) \<longrightarrow> retweets t = 0)"
proof -
  have "wf_store (run empty_store rs)"
    using wf_empty_store by (rule run_wf)
  then have a: "\<forall>t \<in> set (tweets (run empty_store rs)). retweets t = 0"
    by (simp add: wf_store_def wf_tweet_def list_all_iff)
  have b: "retweets t = 0" if "createTweet s i n u c f = (s', Inr (k, t))"
    for s i n u c f s' k t
    using that by (auto simp: createTweet_def Let_def split: option.splits if_splits)
  from a b show ?thesis by blast
qed

theorem retweets_always_zero_witness:
  "ex_tweet \<in> set (tweets (run empty_store ex_requests)) \<and> retweets ex_tweet = 0 \<and>
   createTweet ex_store 11 2000 ex_bob (Some ''hi'') None =
     (ex_store\<lparr>tweets := [ex_tweet, ex_reply]\<rparr>, Inr (201, ex_reply)) \<and>
   retweets ex_reply = 0"
proof -
  note t = retweets_always_zero [of ex_requests]
  have h1: "ex_tweet \<in> set (tweets (run empty_store ex_requests))"
    by (simp add: run_ex_requests ex_store_def)
  have h2: "createTweet ex_store 11 2000 ex_bob (Some ''hi'') None =
     (ex_store\<lparr>tweets := [ex_tweet, ex_reply]\<rparr>, Inr (201, ex_reply))"
    by (simp add: createTweet_def insert_tweet_def validate_tweet_def ex_store_def
        ex_bob_def ex_reply_def ex_tweet_def Let_def)
  from t h1 have c1: "retweets ex_tweet = 0" by blast
  from t h2 have c2: "retweets ex_reply = 0" by blast
  from h1 c1 h2 c2 show ?thesis by (intro conjI)
qed

section \<open>Likes\<close>

lemma findTweet_save_likes:
  "save_likes s t = Some s' \<Longrightarrow>
   findTweet s' j = (if tid t = j then map_option (\<lambda>d. d\<lparr>likes := likes t\<rparr>) (findTweet s j)
                     else findTweet s j)"
  using find_update_first [of tid "\<lambda>d. d\<lparr>likes := likes t\<rparr>" j "tid t" "tweets s"]
  by (auto simp: save_likes_def findTweet_def split: if_splits)

lemma toggleLike_found:
  assumes f: "findTweet s i = Some t" and v: "validate_tweet t"
  shows "\<exists>s1. toggleLike s u i =
           (s1, Inr (200, t\<lparr>likes := (if indexOf (likes t) u = - 1 then push (likes t) u
                                          else splice1 (likes t) (indexOf (likes t) u))\<rparr>)) \<and>
         findTweet s1 i =
           Some (t\<lparr>likes := (if indexOf (likes t) u = - 1 then push (likes t) u
                                else splice1 (likes t) (indexOf (likes t) u))\<rparr>)"
proof -
  let ?l = "if indexOf (likes t) u = - 1 then push (likes t) u
            else splice1 (likes t) (indexOf (likes t) u)"
  let ?t = "t\<lparr>likes := ?l\<rparr>"
  from v have "validate_tweet ?t" by (simp add: validate_tweet_def)
  then obtain s1 where s1: "save_likes s ?t = Some s1"
    by (simp add: save_likes_def)
  from f have ti: "tid ?t = i" by (simp add: findTweet_tid)
  from findTweet_save_likes [OF s1, of i] f ti have "findTweet s1 i = Some ?t"
    by simp
  moreover from f s1 have "toggleLike s u i = (s1, Inr (200, ?t))"
    by (cases "indexOf (likes t) u = - 1") (simp_all add: toggleLike_def Let_def)
  ultimately show ?thesis by blast
qed

lemma toggled_mem:
  "distinct xs \<Longrightarrow>
   (x \<in> set (if indexOf xs x = - 1 then push xs x else splice1 xs (indexOf xs x))) = (x \<notin> set xs)"
  by (auto simp: indexOf_notin push_def splice1_indexOf)

text \<open>
  C2. For every tweet T of a store the server can reach and every user U, two ToggleLike
  requests of U for T in a row both succeed, the first one flips U's membership in T's
  likes, and after the second one U is in T's likes exactly when U was before the pair.
\<close>

theorem toggleLike_twice:
  assumes f: "findTweet (run empty_store rs) i = Some t"
  shows "\<exists>s1 t1 s2 t2.
           toggleLike (run empty_store rs) u i = (s1, Inr (200, t1)) \<and>
           toggleLike s1 u i = (s2, Inr (200, t2)) \<and>
           findTweet s2 i = Some t2 \<and>
           (u \<in> set (likes t1)) = (u \<notin> set (likes t)) \<and>
           (u \<in> set (likes t2)) = (u \<in> set (likes t))"
proof -
  let ?s = "run empty_store rs"
  let ?tg = "\<lambda>xs. if indexOf xs u = - 1 then push xs u else splice1 xs (indexOf xs u)"
  have "wf_store ?s" using wf_empty_store by (rule run_wf)
  from this f have w: "wf_tweet t" by (rule wf_store_findTweet)
  then have v: "validate_tweet t" and d: "distinct (likes t)"
    by (simp_all add: wf_tweet_def)
  let ?t1 = "t\<lparr>likes := ?tg (likes t)\<rparr>"
  from toggleLike_found [OF f v, of u] obtain s1 where
    a1: "toggleLike ?s u i = (s1, Inr (200, ?t1))" and f1: "findTweet s1 i = Some ?t1"
    by blast
  from v have v1: "validate_tweet ?t1" by (simp add: validate_tweet_def)
  from d have d1: "distinct (likes ?t1)" using toggled_distinct [of "likes t" u] by simp
  let ?t2 = "?t1\<lparr>likes := ?tg (likes ?t1)\<rparr>"
  from toggleLike_found [OF f1 v1, of u] obtain s2 where
    a2: "toggleLike s1 u i = (s2, Inr (200, ?t2))" and f2: "findTweet s2 i = Some ?t2"
    by blast
  have m1: "(u \<in> set (likes ?t1)) = (u \<notin> set (likes t))"
    using toggled_mem [OF d, of u] by simp
  have "(u \<in> set (likes ?t2)) = (u \<notin> set (likes ?t1))"
    using toggled_mem [OF d1, of u] by simp
  with m1 have m2: "(u \<in> set (likes ?t2)) = (u \<in> set (likes t))" by simp
  from a1 a2 f2 m1 m2 show ?thesis by blast
qed

theorem toggleLike_twice_witness:
  "findTweet (run empty_store ex_requests) 10 = Some ex_tweet \<and>
   (\<exists>s1 t1 s2 t2.
      toggleLike (run empty_store ex_requests) 2 10 = (s1, Inr (200, t1)) \<and>
      toggleLike s1 2 10 = (s2, Inr (200, t2)) \<and>
      findTweet s2 10 = Some t2 \<and>
      (2 \<in> set (likes t1)) = (2 \<notin> set (likes ex_tweet)) \<and>
      (2 \<in> set (likes t2)) = (2 \<in> set (likes ex_tweet)))"
proof -
  have h: "findTweet (run empty_store ex_requests) 10 = Some ex_tweet"
    by code_simp
  from toggleLike_twice [OF h, of 2] h show ?thesis by (rule_tac conjI)
qed

section \<open>Follow then unfollow\<close>

lemma findUser_save_following:
  "save_following s u = Some s' \<Longrightarrow>
   findUser s' j =
     (if uid u = j
      then map_option (\<lambda>d. d\<lparr>following := following u, vkey := vkey d + 1\<rparr>) (findUser s j)
      else findUser s j)"
  using find_update_first
    [of uid "\<lambda>d. d\<lparr>following := following u, vkey := vkey d + 1\<rparr>" j "uid u" "users s"]
  by (auto simp: save_following_def findUser_def split: if_splits)

lemma findUser_save_followers:
  "save_followers s u = Some s' \<Longrightarrow>
   findUser s' j = (if uid u = j then map_option (\<lambda>d. d\<lparr>followers := followers u\<rparr>) (findUser s j)
                    else findUser s j)"
  using find_update_first [of uid "\<lambda>d. d\<lparr>followers := followers u\<rparr>" j "uid u" "users s"]
  by (auto simp: save_followers_def findUser_def split: if_splits)

lemma save_following_Some: "validate_user u \<Longrightarrow> \<exists>s'. save_following s u = Some s'"
  by (simp add: save_following_def)

lemma save_followers_Some: "validate_user u \<Longrightarrow> \<exists>s'. save_followers s u = Some s'"
  by (simp add: save_followers_def)

lemma follow_ok:
  assumes fa: "findUser s a = Some ua" and fb: "findUser s b = Some ub"
    and nf: "b \<notin> set (following ua)" and va: "validate_user ua" and vb: "validate_user ub"
  shows "\<exists>s2 ua2 ub2.
           follow s a b = (s2, Inr (200, (push (following ua) b, username ub))) \<and>
           findUser s2 a = Some ua2 \<and> following ua2 = push (following ua) b \<and>
           validate_user ua2 \<and>
           findUser s2 b = Some ub2 \<and> followers ub2 = followers ub + 1 \<and>
           validate_user ub2"
proof -
  from fa have ia: "uid ua = a" by (rule findUser_uid)
  from fb have ib: "uid ub = b" by (rule findUser_uid)
  let ?cu = "ua\<lparr>following := push (following ua) b\<rparr>"
  let ?st = "?cu\<lparr>vkey := vkey ua + 1\<rparr>"
  let ?tu = "ub\<lparr>followers := or0 (followers ub) + 1\<rparr>"
  from va have "validate_user ?cu" by (simp add: validate_user_def)
  then obtain s1 where s1: "save_following s ?cu = Some s1"
    using save_following_Some by blast
  from vb have "validate_user ?tu" by (simp add: validate_user_def)
  then obtain s2 where s2: "save_followers s1 ?tu = Some s2"
    using save_followers_Some by blast
  have r: "follow s a b = (s2, Inr (200, (push (following ua) b, username ub)))"
    using fa fb nf ib s1 s2 by (simp add: follow_def includes_js_mem Let_def)
  have a1: "findUser s1 a = Some ?st"
    using findUser_save_following [OF s1, of a] fa ia by simp
  have b1: "findUser s1 b = Some (if a = b then ?st else ub)"
    using findUser_save_following [OF s1, of b] fa fb ia by auto
  have a2: "findUser s2 a = Some (if a = b then ?st\<lparr>followers := followers ?tu\<rparr> else ?st)"
    using findUser_save_followers [OF s2, of a] a1 ib by auto
  have b2: "findUser s2 b =
      Some ((if a = b then ?st else ub)\<lparr>followers := followers ?tu\<rparr>)"
    using findUser_save_followers [OF s2, of b] b1 ib by simp
  let ?ua2 = "if a = b then ?st\<lparr>followers := followers ?tu\<rparr> else ?st"
  let ?ub2 = "(if a = b then ?st else ub)\<lparr>followers := followers ?tu\<rparr>"
  have "following ?ua2 = push (following ua) b" by simp
  moreover have "validate_user ?ua2" using va by (simp add: validate_user_def)
  moreover have "followers ?ub2 = followers ub + 1" by (simp add: or0_def)
  moreover have "validate_user ?ub2" using va vb by (simp add: validate_user_def)
  ultimately show ?thesis using r a2 b2 by blast
qed

lemma unfollow_ok:
  assumes fa: "findUser s a = Some ua" and fb: "findUser s b = Some ub"
    and nf: "b \<in> set (following ua)" and va: "validate_user ua" and vb: "validate_user ub"
  shows "\<exists>s2 ua2 ub2.
           unfollow s a b = (s2, Inr (200, (remove1 b (following ua), username ub))) \<and>
           findUser s2 a = Some ua2 \<and> following ua2 = remove1 b (following ua) \<and>
           findUser s2 b = Some ub2 \<and> followers ub2 = max 0 (followers ub - 1)"
proof -
  from fa have ia: "uid ua = a" by (rule findUser_uid)
  from fb have ib: "uid ub = b" by (rule findUser_uid)
  from nf have ix: "indexOf (following ua) b \<noteq> - 1" by (simp add: indexOf_notin)
  from nf have sp: "splice1 (following ua) (indexOf (following ua) b) = remove1 b (following ua)"
    by (rule splice1_indexOf)
  let ?cu = "ua\<lparr>following := remove1 b (following ua)\<rparr>"
  let ?st = "?cu\<lparr>vkey := vkey ua + 1\<rparr>"
  let ?tu = "ub\<lparr>followers := max 0 (or0 (followers ub) - 1)\<rparr>"
  from va have "validate_user ?cu" by (simp add: validate_user_def)
  then obtain s1 where s1: "save_following s ?cu = Some s1"
    using save_following_Some by blast
  from vb have "validate_user ?tu" by (simp add: validate_user_def)
  then obtain s2 where s2: "save_followers s1 ?tu = Some s2"
    using save_followers_Some by blast
  have r: "unfollow s a b = (s2, Inr (200, (remove1 b (following ua), username ub)))"
    using fa fb ix sp ib s1 s2 by (simp add: unfollow_def Let_def)
  have a1: "findUser s1 a = Some ?st"
    using findUser_save_following [OF s1, of a] fa ia by simp
  have b1: "findUser s1 b = Some (if a = b then ?st else ub)"
    using findUser_save_following [OF s1, of b] fa fb ia by auto
  have a2: "findUser s2 a = Some (if a = b then ?st\<lparr>followers := followers ?tu\<rparr> else ?st)"
    using findUser_save_followers [OF s2, of a] a1 ib by auto
  have b2: "findUser s2 b =
      Some ((if a = b then ?st else ub)\<lparr>followers := followers ?tu\<rparr>)"
    using findUser_save_followers [OF s2, of b] b1 ib by simp
  let ?ua2 = "if a = b then ?st\<lparr>followers := followers ?tu\<rparr> else ?st"
  let ?ub2 = "(if a = b then ?st else ub)\<lparr>followers := followers ?tu\<rparr>"
  have "following ?ua2 = remove1 b (following ua)" by simp
  moreover have "followers ?ub2 = max 0 (followers ub - 1)" by (simp add: or0_def)
  ultimately show ?thesis using r a2 b2 by blast
qed

text \<open>
  C3. For all users A and B of a store the server can reach, with A not following B,
  Follow(A, B) and then Unfollow(A, B) both succeed, and afterwards A's following list and
  B's followers counter are what they were before the Follow.
\<close>

theorem follow_then_unfollow:
  assumes fa: "findUser (run empty_store rs) a = Some ua"
    and fb: "findUser (run empty_store rs) b = Some ub"
    and nf: "b \<notin> set (following ua)"
  shows "\<exists>s1 r1 s2 r2 ua2 ub2.
           follow (run empty_store rs) a b = (s1, Inr (200, r1)) \<and>
           unfollow s1 a b = (s2, Inr (200, r2)) \<and>
           findUser s2 a = Some ua2 \<and> following ua2 = following ua \<and>
           findUser s2 b = Some ub2 \<and> followers ub2 = followers ub"
proof -
  have w: "wf_store (run empty_store rs)" using wf_empty_store by (rule run_wf)
  from wf_store_findUser [OF w fa] have va: "validate_user ua" by (simp add: wf_user_def)
  from wf_store_findUser [OF w fb] have vb: "validate_user ub" and nn: "0 \<le> followers ub"
    by (simp_all add: wf_user_def)
  from follow_ok [OF fa fb nf va vb] obtain s1 ua1 ub1 where
    r1: "follow (run empty_store rs) a b = (s1, Inr (200, (push (following ua) b, username ub)))"
    and a1: "findUser s1 a = Some ua1" "following ua1 = push (following ua) b" "validate_user ua1"
    and b1: "findUser s1 b = Some ub1" "followers ub1 = followers ub + 1" "validate_user ub1"
    by blast
  from a1(2) have m: "b \<in> set (following ua1)" by (simp add: push_def)
  from unfollow_ok [OF a1(1) b1(1) m a1(3) b1(3)] obtain s2 ua2 ub2 where
    r2: "unfollow s1 a b = (s2, Inr (200, (remove1 b (following ua1), username ub1)))"
    and a2: "findUser s2 a = Some ua2" "following ua2 = remove1 b (following ua1)"
    and b2: "findUser s2 b = Some ub2" "followers ub2 = max 0 (followers ub1 - 1)"
    by blast
  from a2(2) a1(2) nf have "following ua2 = following ua"
    by (simp add: push_def remove1_append)
  moreover from b2(2) b1(2) nn have "followers ub2 = followers ub" by simp
  ultimately show ?thesis using r1 r2 a2(1) b2(1) by blast
qed

theorem follow_then_unfollow_witness:
  "findUser (run empty_store ex_requests) 2 = Some ex_bob \<and>
   findUser (run empty_store ex_requests) 1 = Some ex_ann \<and>
   1 \<notin> set (following ex_bob) \<and>
   (\<exists>s1 r1 s2 r2 ua2 ub2.
      follow (run empty_store ex_requests) 2 1 = (s1, Inr (200, r1)) \<and>
      unfollow s1 2 1 = (s2, Inr (200, r2)) \<and>
      findUser s2 2 = Some ua2 \<and> following ua2 = following ex_bob \<and>
      findUser s2 1 = Some ub2 \<and> followers ub2 = followers ex_ann)"
proof -
  have h1: "findUser (run empty_store ex_requests) 2 = Some ex_bob"
    by (simp add: run_ex_requests findUser_def ex_store_def ex_ann_def ex_bob_def)
  have h2: "findUser (run empty_store ex_requests) 1 = Some ex_ann"
    by (simp add: run_ex_requests findUser_def ex_store_def ex_ann_def)
  have h3: "1 \<notin> set (following ex_bob)"
    by (simp add: ex_bob_def)
  from follow_then_unfollow [OF h1 h2 h3] h1 h2 h3 show ?thesis by (intro conjI)
qed

section \<open>What a like toggle leaves alone\<close>

text \<open>
  C10. A successful ToggleLike(T, U) leaves the user collection as it is and rewrites the
  tweet collection at T's position only; there the new tweet differs from T in its likes
  at most: userId, author, handle, avatar, content, image, retweets, comments and
  createdAt (and the id) are those of T.
\<close>

theorem toggleLike_frame:
  assumes "toggleLike s u i = (s', Inr (k, t'))"
  shows "users s' = users s \<and>
         (\<exists>j t. j < length (tweets s) \<and> tweets s ! j = t \<and> findTweet s i = Some t \<and>
            tweets s' = (tweets s)[j := t'] \<and>
            t' = t\<lparr>likes := likes t'\<rparr> \<and>
            tid t' = tid t \<and> userId t' = userId t \<and> author t' = author t \<and>
            handle t' = handle t \<and> tweet_avatar t' = tweet_avatar t \<and>
            content t' = content t \<and> tweet_image t' = tweet_image t \<and>
            retweets t' = retweets t \<and> comments t' = comments t \<and>
            createdAt t' = createdAt t)"
proof -
  from assms obtain t where f: "findTweet s i = Some t"
    by (cases "findTweet s i") (simp_all add: toggleLike_def)
  let ?l = "if indexOf (likes t) u = - 1 then push (likes t) u
            else splice1 (likes t) (indexOf (likes t) u)"
  let ?t = "t\<lparr>likes := ?l\<rparr>"
  from f have ti: "tid t = i" by (rule findTweet_tid)
  have sv: "save_likes s ?t = Some s'" and t': "t' = ?t"
    using assms f
    by (cases "indexOf (likes t) u = - 1";
        simp add: toggleLike_def Let_def split: option.splits)+
  from sv have s': "s' = s\<lparr>tweets :=
      update_first (\<lambda>d. tid d = i) (\<lambda>d. d\<lparr>likes := ?l\<rparr>) (tweets s)\<rparr>"
    using ti by (simp add: save_likes_def split: if_splits)
  from f have "find (\<lambda>d. tid d = i) (tweets s) = Some t" by (simp add: findTweet_def)
  from update_first_nth [OF this, of "\<lambda>d. d\<lparr>likes := ?l\<rparr>"] obtain j where
    j: "j < length (tweets s)" "tweets s ! j = t"
       "update_first (\<lambda>d. tid d = i) (\<lambda>d. d\<lparr>likes := ?l\<rparr>) (tweets s) = (tweets s)[j := ?t]"
    by blast
  from s' have u: "users s' = users s" by simp
  from s' j(3) t' have tw: "tweets s' = (tweets s)[j := t']" by simp
  from t' have e: "t' = t\<lparr>likes := likes t'\<rparr>" by simp
  from t' have fs: "tid t' = tid t" "userId t' = userId t" "author t' = author t"
    "handle t' = handle t" "tweet_avatar t' = tweet_avatar t" "content t' = content t"
    "tweet_image t' = tweet_image t" "retweets t' = retweets t" "comments t' = comments t"
    "createdAt t' = createdAt t"
    by simp_all
  from u j(1,2) f tw e fs show ?thesis by blast
qed


theorem toggleLike_frame_witness:
  "toggleLike ex_store 1 10 =
     (ex_store\<lparr>tweets := [ex_tweet\<lparr>likes := [2, 1]\<rparr>]\<rparr>, Inr (200, ex_tweet\<lparr>likes := [2, 1]\<rparr>)) \<and>
   users (ex_store\<lparr>tweets := [ex_tweet\<lparr>likes := [2, 1]\<rparr>]\<rparr>) = users ex_store \<and>
   author (ex_tweet\<lparr>likes := [2, 1]\<rparr>) = author ex_tweet"
proof -
  have h: "toggleLike ex_store 1 10 =
     (ex_store\<lparr>tweets := [ex_tweet\<lparr>likes := [2, 1]\<rparr>]\<rparr>, Inr (200, ex_tweet\<lparr>likes := [2, 1]\<rparr>))"
    by code_simp
  note t = toggleLike_frame [OF h]
  from t have u: "users (ex_store\<lparr>tweets := [ex_tweet\<lparr>likes := [2, 1]\<rparr>]\<rparr>) = users ex_store"
    by (rule conjunct1)
  from t have a: "author (ex_tweet\<lparr>likes := [2, 1]\<rparr>) = author ex_tweet"
    by (auto simp: findTweet_def ex_store_def ex_tweet_def)
  from h u a show ?thesis by (intro conjI)
qed

section \<open>Profiles\<close>

lemma uid_update_first:
  "(\<And>x. uid (f x) = uid x) \<Longrightarrow> map uid (update_first Q f xs) = map uid xs"
  by (induction xs) auto

lemma uids_save_following: "save_following s u = Some s' \<Longrightarrow> map uid (users s') = map uid (users s)"
  by (auto simp: save_following_def uid_update_first split: if_splits)

lemma uids_save_followers: "save_followers s u = Some s' \<Longrightarrow> map uid (users s') = map uid (users s)"
  by (auto simp: save_followers_def uid_update_first split: if_splits)

lemma uids_follow: "map uid (users (fst (follow s a b))) = map uid (users s)"
  by (auto simp: follow_def Let_def uids_save_following uids_save_followers
      split: option.splits)

lemma uids_unfollow: "map uid (users (fst (unfollow s a b))) = map uid (users s)"
  by (auto simp: unfollow_def Let_def uids_save_following uids_save_followers
      split: option.splits)

lemma users_createTweet: "users (fst (createTweet s i n u c f)) = users s"
  by (auto simp: createTweet_def insert_tweet_def Let_def split: option.splits)

lemma users_toggleLike: "users (fst (toggleLike s u i)) = users s"
  by (auto simp: toggleLike_def save_likes_def Let_def split: option.splits if_splits)

lemma users_addComment: "users (fst (addComment s n u i c)) = users s"
  by (auto simp: addComment_def save_comments_def Let_def split: option.splits if_splits)

lemma distinct_uids_signup:
  "distinct (map uid (users s)) \<Longrightarrow> distinct (map uid (users (fst (signup up s i h k un pw nm))))"
  by (auto simp: signup_def insert_user_def Let_def split: option.splits if_splits)

lemma distinct_uids_step:
  "distinct (map uid (users s)) \<Longrightarrow> distinct (map uid (users (step s r)))"
  by (cases r)
     (simp_all add: distinct_uids_signup users_createTweet users_toggleLike uids_follow
        uids_unfollow users_addComment split: sum.splits)

lemma distinct_uids_run:
  "distinct (map uid (users s)) \<Longrightarrow> distinct (map uid (users (run s rs)))"
  unfolding run_def by (induction rs arbitrary: s) (simp_all add: distinct_uids_step)

lemma find_distinct_key:
  "distinct (map key xs) \<Longrightarrow> x \<in> set xs \<Longrightarrow> find (\<lambda>y. key y = key x) xs = Some x"
  by (induction xs) (auto simp: image_iff)

text \<open>
  C1, as amended. For every user stored in a store the server can reach, GetProfile
  answers 200 with a profile document that carries, beyond the username, name and avatar,
  the user's id, bio, following list and followers counter. It fails with 404 "User not
  found" when the id is a well-formed identifier that no stored user has.
\<close>

theorem getProfile_whole_document:
  "(\<forall>u \<in> set (users (run empty_store rs)).
      \<exists>body. getProfile (run empty_store rs) (ObjectId (uid u)) = Inr (200, body) \<and>
        field body ''_id'' = Some (JId (uid u)) \<and>
        field body ''username'' = Some (JStr (username u)) \<and>
        field body ''name'' = Some (JStr (name u)) \<and>
        field body ''avatar'' = Some (JStr (avatar u)) \<and>
        field body ''bio'' = Some (JStr (bio u)) \<and>
        field body ''following'' = Some (JArr (map JId (following u))) \<and>
        field body ''followers'' = Some (JNum (followers u))) \<and>
   (\<forall>i. i \<notin> set (map uid (users (run empty_store rs))) \<longrightarrow>
      getProfile (run empty_store rs) (ObjectId i) = Inl (Err 404 ''User not found''))"
proof -
  let ?s = "run empty_store rs"
  have d: "distinct (map uid (users ?s))"
    by (rule distinct_uids_run) (simp add: empty_store_def)
  have a: "getProfile ?s (ObjectId (uid u)) = Inr (200, user_json u)"
    if "u \<in> set (users ?s)" for u
    using find_distinct_key [OF d that] by (simp add: getProfile_def findUser_def)
  have b: "field (user_json u) ''_id'' = Some (JId (uid u)) \<and>
        field (user_json u) ''username'' = Some (JStr (username u)) \<and>
        field (user_json u) ''name'' = Some (JStr (name u)) \<and>
        field (user_json u) ''avatar'' = Some (JStr (avatar u)) \<and>
        field (user_json u) ''bio'' = Some (JStr (bio u)) \<and>
        field (user_json u) ''following'' = Some (JArr (map JId (following u))) \<and>
        field (user_json u) ''followers'' = Some (JNum (followers u))" for u
    by (simp add: user_json_def)
  have c: "getProfile ?s (ObjectId i) = Inl (Err 404 ''User not found'')"
    if "i \<notin> set (map uid (users ?s))" for i
  proof -
    from that have "find (\<lambda>u. uid u = i) (users ?s) = None"
      by (auto simp: find_None_iff)
    then show ?thesis by (simp add: getProfile_def findUser_def)
  qed
  from a b c show ?thesis by blast
qed

theorem getProfile_whole_document_witness:
  "ex_ann \<in> set (users (run empty_store ex_requests)) \<and>
   (\<exists>body. getProfile (run empty_store ex_requests) (ObjectId (uid ex_ann)) = Inr (200, body) \<and>
      field body ''bio'' = Some (JStr (bio ex_ann)) \<and>
      field body ''following'' = Some (JArr (map JId (following ex_ann))) \<and>
      field body ''followers'' = Some (JNum (followers ex_ann))) \<and>
   7 \<notin> set (map uid (users (run empty_store ex_requests))) \<and>
   getProfile (run empty_store ex_requests) (ObjectId 7) = Inl (Err 404 ''User not found'')"
proof -
  note t = getProfile_whole_document [of ex_requests]
  have h1: "ex_ann \<in> set (users (run empty_store ex_requests))"
    by (simp add: run_ex_requests ex_store_def)
  have h2: "7 \<notin> set (map uid (users (run empty_store ex_requests)))"
    by (simp add: run_ex_requests ex_store_def ex_ann_def ex_bob_def)
  from t h1 have c1: "\<exists>body.
      getProfile (run empty_store ex_requests) (ObjectId (uid ex_ann)) = Inr (200, body) \<and>
      field body ''bio'' = Some (JStr (bio ex_ann)) \<and>
      field body ''following'' = Some (JArr (map JId (following ex_ann))) \<and>
      field body ''followers'' = Some (JNum (followers ex_ann))"
    by blast
  from t h2 have c2:
    "getProfile (run empty_store ex_requests) (ObjectId 7) = Inl (Err 404 ''User not found'')"
    by blast
  from h1 c1 h2 c2 show ?thesis by (intro conjI)
qed

text \<open>
  C1, as stated, fails twice. The answer for a stored user is not the projection to
  username, name and avatar: it is the whole document, with the id, the password hash,
  the bio, the follow data and the version key. And for an id that is no well-formed
  identifier, which no user has, the answer is 500 "Server error", not 404.
\<close>

theorem getProfile_projection_counterexample:
  "findUser ex_store 1 = Some ex_ann \<and>
   getProfile ex_store (ObjectId 1) =
     Inr (200, JObj [(''_id'', JId 1), (''username'', JStr ''ann''), (''password'', JStr ''h1''),
       (''name'', JStr ''Ann Lee''), (''avatar'', JStr ''AL''), (''bio'', JStr []),
       (''following'', JArr [JId 2]), (''followers'', JNum 0), (''__v'', JNum 1)]) \<and>
   getProfile ex_store (ObjectId 1) \<noteq> Inr (200, profile_projection ex_ann) \<and>
   getProfile ex_store (Malformed ''7'') = Inl (Err 500 ''Server error'')"
  by (simp add: getProfile_def findUser_def ex_store_def ex_ann_def user_json_def
      profile_projection_def)

section \<open>Signup failures\<close>

text \<open>
  C6, as amended. Signup fails with 400 "Please provide all fields" whenever one of
  username, password and name is absent or empty; it fails with 400 "Username already
  taken" whenever the three fields are non-empty and a stored user has the username,
  whatever the password and the name are; and whenever a stored user has the username it
  fails with status 400, whatever the other fields are. In each of these cases the store
  is returned unchanged.
\<close>

theorem signup_failures:
  "(falsy un \<or> falsy pw \<or> falsy nm \<longrightarrow>
      signup up s i h k un pw nm = (s, Inl (Err 400 ''Please provide all fields''))) \<and>
   (\<not> falsy (Some x) \<and> \<not> falsy pw \<and> \<not> falsy nm \<and> x \<in> set (map username (users s)) \<longrightarrow>
      signup up s i h k (Some x) pw nm = (s, Inl (Err 400 ''Username already taken''))) \<and>
   (x \<in> set (map username (users s)) \<longrightarrow>
      (\<exists>msg. signup up s i h k (Some x) pw nm = (s, Inl (Err 400 msg))))"
proof -
  have a: "signup up s i h k un pw nm = (s, Inl (Err 400 ''Please provide all fields''))"
    if "falsy un \<or> falsy pw \<or> falsy nm" for un
    using that by (simp add: signup_def)
  have b: "signup up s i h k (Some x) pw nm = (s, Inl (Err 400 ''Username already taken''))"
    if "\<not> falsy (Some x)" "\<not> falsy pw" "\<not> falsy nm" "x \<in> set (map username (users s))"
  proof -
    from that(4) have "find (\<lambda>u. username u = x) (users s) \<noteq> None"
      by (auto simp: find_None_iff)
    then obtain e where "findUserByName s x = Some e"
      by (auto simp: findUserByName_def)
    with that(1-3) show ?thesis
      by (cases nm) (simp_all add: signup_def falsy_def)
  qed
  have c: "\<exists>msg. signup up s i h k (Some x) pw nm = (s, Inl (Err 400 msg))"
    if "x \<in> set (map username (users s))"
  proof (cases "falsy (Some x) \<or> falsy pw \<or> falsy nm")
    case True
    from a [OF True] show ?thesis by blast
  next
    case False
    with b that show ?thesis by blast
  qed
  from a b c show ?thesis by blast
qed

theorem signup_failures_witness:
  "falsy (Some []) \<and>
   signup ex_upper ex_store 3 ''h3'' ''t3'' (Some ''zed'') (Some []) (Some ''Zed'') =
     (ex_store, Inl (Err 400 ''Please provide all fields'')) \<and>
   \<not> falsy (Some ''ann'') \<and> \<not> falsy (Some ''pw'') \<and> \<not> falsy (Some ''Zed'') \<and>
   ''ann'' \<in> set (map username (users ex_store)) \<and>
   signup ex_upper ex_store 3 ''h3'' ''t3'' (Some ''ann'') (Some ''pw'') (Some ''Zed'') =
     (ex_store, Inl (Err 400 ''Username already taken'')) \<and>
   (\<exists>msg. signup ex_upper ex_store 3 ''h3'' ''t3'' (Some ''ann'') (Some ''pw'') (Some ''Zed'') =
     (ex_store, Inl (Err 400 msg)))"
proof -
  have h1: "falsy (Some [])" by (simp add: falsy_def)
  have h2: "\<not> falsy (Some ''ann'')" "\<not> falsy (Some ''pw'')" "\<not> falsy (Some ''Zed'')"
    by (simp_all add: falsy_def)
  have h3: "''ann'' \<in> set (map username (users ex_store))"
    by (simp add: ex_store_def ex_ann_def)
  from signup_failures [where un = "Some ''zed''" and pw = "Some []" and nm = "Some ''Zed''"
      and up = ex_upper and s = ex_store and i = 3 and h = "''h3''" and k = "''t3''"
      and x = "''zed''"] h1
  have c1: "signup ex_upper ex_store 3 ''h3'' ''t3'' (Some ''zed'') (Some []) (Some ''Zed'') =
     (ex_store, Inl (Err 400 ''Please provide all fields''))"
    by blast
  note t = signup_failures [where un = "Some ''ann''" and pw = "Some ''pw''"
      and nm = "Some ''Zed''" and up = ex_upper and s = ex_store and i = 3 and h = "''h3''"
      and k = "''t3''" and x = "''ann''"]
  from t h2 h3
  have c2: "signup ex_upper ex_store 3 ''h3'' ''t3'' (Some ''ann'') (Some ''pw'') (Some ''Zed'') =
     (ex_store, Inl (Err 400 ''Username already taken''))"
    by blast
  from t h3
  have c3: "\<exists>msg. signup ex_upper ex_store 3 ''h3'' ''t3'' (Some ''ann'') (Some ''pw'') (Some ''Zed'') =
     (ex_store, Inl (Err 400 msg))"
    by blast
  from h1 c1 h2 h3 c2 c3 show ?thesis by (intro conjI)
qed

text \<open>
  C6, as stated, fails: with a taken username and an empty password the error is the
  missing-field one, not the username-taken one.
\<close>

theorem signup_taken_counterexample:
  "''ann'' \<in> set (map username (users ex_store)) \<and>
   signup ex_upper ex_store 3 ''h3'' ''t3'' (Some ''ann'') (Some []) (Some ''Zed'') =
     (ex_store, Inl (Err 400 ''Please provide all fields'')) \<and>
   signup ex_upper ex_store 3 ''h3'' ''t3'' (Some ''ann'') (Some []) (Some ''Zed'') \<noteq>
     (ex_store, Inl (Err 400 ''Username already taken''))"
  by (simp add: signup_def falsy_def ex_store_def ex_ann_def)

section \<open>Listing tweets\<close>

text \<open>
  C7. ListTweets answers 200 with all stored tweets, each as often as it is stored,
  ordered by creation time descending; on the empty store it answers 200 with the empty
  list.
\<close>

theorem listTweets_newest_first:
  "(\<exists>ts. listTweets s = Inr (200, ts) \<and> mset ts = mset (tweets s) \<and>
      sorted_wrt (\<lambda>a b. createdAt b \<le> createdAt a) ts) \<and>
   listTweets empty_store = Inr (200, [])"
proof -
  let ?ts = "sort_createdAt_desc (tweets s)"
  have m: "mset ?ts = mset (tweets s)"
    by (simp add: sort_createdAt_desc_def)
  have "sorted (map (\<lambda>t. - createdAt t) ?ts)"
    by (simp add: sort_createdAt_desc_def)
  then have o: "sorted_wrt (\<lambda>a b. createdAt b \<le> createdAt a) ?ts"
    by (simp add: sorted_map)
  have e: "listTweets empty_store = Inr (200, [])"
    by (simp add: listTweets_def empty_store_def sort_createdAt_desc_def)
  from m o e show ?thesis by (simp add: listTweets_def)
qed

section \<open>The author snapshot of a tweet\<close>

text \<open>
  C8 fails for an authenticated user whose avatar is empty. Signup accepts the name " "
  and derives the empty avatar from it; the tweet schema requires a non-empty avatar, so
  the save of the new tweet is rejected: CreateTweet answers 500 "Server error" and no
  tweet is stored.
\<close>

theorem createTweet_blank_avatar:
  "run empty_store ex_blank_requests = ex_blank_store \<and>
   authenticate ex_blank_store (Token 1) = Inr ex_blank \<and>
   createTweet ex_blank_store 10 1000 ex_blank (Some ''hello'') None =
     (ex_blank_store, Inl (Err 500 ''Server error''))"
  by code_simp

lemma tweets_signup: "tweets (fst (signup up s i h k un pw nm)) = tweets s"
  by (simp add: signup_def insert_user_def Let_def split: option.splits prod.splits)

lemma tweets_save_following: "save_following s u = Some s' \<Longrightarrow> tweets s' = tweets s"
  by (auto simp: save_following_def split: if_splits)

lemma tweets_save_followers: "save_followers s u = Some s' \<Longrightarrow> tweets s' = tweets s"
  by (auto simp: save_followers_def split: if_splits)

lemma tweets_follow: "tweets (fst (follow s a b)) = tweets s"
  by (auto simp: follow_def Let_def tweets_save_following tweets_save_followers
      split: option.splits)

lemma tweets_unfollow: "tweets (fst (unfollow s a b)) = tweets s"
  by (auto simp: unfollow_def Let_def tweets_save_following tweets_save_followers
      split: option.splits)

lemma find_append_Some: "find P xs = Some x \<Longrightarrow> find P (xs @ ys) = Some x"
  by (induction xs) (auto split: if_splits)

lemma find_append_None:
  "find P xs = None \<Longrightarrow> find P (xs @ ys) = find P ys"
  by (induction xs) (auto split: if_splits)

lemma findTweet_createTweet:
  "findTweet s j = Some t \<Longrightarrow> findTweet (fst (createTweet s i n u c f)) j = Some t"
  by (auto simp: createTweet_def insert_tweet_def findTweet_def Let_def find_append_Some
      split: option.splits)

lemma findTweet_save_comments:
  "save_comments s t = Some s' \<Longrightarrow>
   findTweet s' j = (if tid t = j then map_option (\<lambda>d. d\<lparr>comments := comments t\<rparr>) (findTweet s j)
                     else findTweet s j)"
  using find_update_first [of tid "\<lambda>d. d\<lparr>comments := comments t\<rparr>" j "tid t" "tweets s"]
  by (auto simp: save_comments_def findTweet_def split: if_splits)

lemma toggleLike_store:
  "fst (toggleLike s u i) = s \<or> (\<exists>t. save_likes s t = Some (fst (toggleLike s u i)))"
  by (auto simp: toggleLike_def Let_def split: option.splits)

lemma addComment_store:
  "fst (addComment s n u i c) = s \<or> (\<exists>t. save_comments s t = Some (fst (addComment s n u i c)))"
  by (auto simp: addComment_def Let_def split: option.splits)

lemma findTweet_toggleLike:
  assumes "findTweet s j = Some t"
  shows "\<exists>t'. findTweet (fst (toggleLike s u i)) j = Some t' \<and> same_snapshot t t'"
  using toggleLike_store [of s u i]
proof
  assume "fst (toggleLike s u i) = s"
  with assms show ?thesis by (simp add: same_snapshot_def)
next
  assume "\<exists>x. save_likes s x = Some (fst (toggleLike s u i))"
  then obtain x where "save_likes s x = Some (fst (toggleLike s u i))" by blast
  from findTweet_save_likes [OF this, of j] assms show ?thesis
    by (auto simp: same_snapshot_def)
qed

lemma findTweet_addComment:
  assumes "findTweet s j = Some t"
  shows "\<exists>t'. findTweet (fst (addComment s n u i c)) j = Some t' \<and> same_snapshot t t'"
  using addComment_store [of s n u i c]
proof
  assume "fst (addComment s n u i c) = s"
  with assms show ?thesis by (simp add: same_snapshot_def)
next
  assume "\<exists>x. save_comments s x = Some (fst (addComment s n u i c))"
  then obtain x where "save_comments s x = Some (fst (addComment s n u i c))" by blast
  from findTweet_save_comments [OF this, of j] assms show ?thesis
    by (auto simp: same_snapshot_def)
qed

lemma findTweet_step:
  assumes "findTweet s j = Some t"
  shows "\<exists>t'. findTweet (step s r) j = Some t' \<and> same_snapshot t t'"
proof (cases r)
  case (Signup up i h k un pw nm)
  with assms show ?thesis by (simp add: findTweet_def tweets_signup same_snapshot_def)
next
  case (CreateTweet tok i n c f)
  with assms show ?thesis
    by (auto simp: findTweet_createTweet same_snapshot_def split: sum.splits)
next
  case (ToggleLike tok i)
  with assms findTweet_toggleLike [OF assms] show ?thesis
    by (auto simp: same_snapshot_def split: sum.splits)
next
  case (Follow tok i)
  with assms show ?thesis
    by (auto simp: findTweet_def tweets_follow same_snapshot_def split: sum.splits)
next
  case (Unfollow tok i)
  with assms show ?thesis
    by (auto simp: findTweet_def tweets_unfollow same_snapshot_def split: sum.splits)
next
  case (AddComment tok n i c)
  with assms findTweet_addComment [OF assms] show ?thesis
    by (auto simp: same_snapshot_def split: sum.splits)
qed (use assms in \<open>simp_all add: same_snapshot_def\<close>)

lemma findTweet_run:
  "findTweet s j = Some t \<Longrightarrow> \<exists>t'. findTweet (run s rs) j = Some t' \<and> same_snapshot t t'"
proof (induction rs arbitrary: s t)
  case Nil
  then show ?case by (simp add: run_def same_snapshot_def)
next
  case (Cons r rs)
  from findTweet_step [OF Cons.prems, of r] obtain t1 where
    t1: "findTweet (step s r) j = Some t1" "same_snapshot t t1" by blast
  from Cons.IH [OF t1(1)] obtain t2 where
    t2: "findTweet (run (step s r) rs) j = Some t2" "same_snapshot t1 t2" by blast
  from t1(2) t2(2) have "same_snapshot t t2" by (simp add: same_snapshot_def)
  with t2(1) show ?case by (auto simp: run_def)
qed

text \<open>
  What holds of C8 otherwise. For every user U authenticated against a store the server
  can reach, with a non-empty avatar, every non-empty content and every fresh tweet id,
  CreateTweet answers 201 with a tweet whose author, handle and avatar are U's name, "@"
  followed by U's username, and U's avatar; and after any further sequence of requests
  the tweet with that id still has the same author, handle and avatar.
\<close>

theorem createTweet_snapshot:
  assumes au: "authenticate (run empty_store rs) tok = Inr u"
    and av: "avatar u \<noteq> []" and c: "c \<noteq> []"
    and fresh: "i \<notin> set (map tid (tweets (run empty_store rs)))"
  shows "\<exists>s' t. createTweet (run empty_store rs) i now u (Some c) f = (s', Inr (201, t)) \<and>
           author t = name u \<and> handle t = ''@'' @ username u \<and> tweet_avatar t = avatar u \<and>
           findTweet s' i = Some t \<and>
           (\<forall>rs'. \<exists>t'. findTweet (run s' rs') i = Some t' \<and> author t' = author t \<and>
                        handle t' = handle t \<and> tweet_avatar t' = tweet_avatar t)"
proof -
  let ?s = "run empty_store rs"
  have w: "wf_store ?s" using wf_empty_store by (rule run_wf)
  from au obtain a where fu: "findUser ?s a = Some u"
    by (auto simp: authenticate_def split: token.splits option.splits)
  from wf_store_findUser [OF w fu] have nm: "name u \<noteq> []"
    by (simp add: wf_user_def validate_user_def)
  let ?t = "\<lparr>tid = i, userId = uid u, author = name u, handle = ''@'' @ username u,
      tweet_avatar = avatar u, content = c,
      tweet_image = (case f of None \<Rightarrow> None | Some x \<Rightarrow> Some (''/uploads/'' @ x)),
      likes = [], retweets = 0, comments = [], createdAt = now\<rparr>"
  let ?s' = "?s\<lparr>tweets := tweets ?s @ [?t]\<rparr>"
  from nm av c fresh have r: "createTweet ?s i now u (Some c) f = (?s', Inr (201, ?t))"
    by (simp add: createTweet_def insert_tweet_def validate_tweet_def Let_def)
  from fresh have f': "findTweet ?s' i = Some ?t"
  proof -
    from fresh have "find (\<lambda>t. tid t = i) (tweets ?s) = None"
      by (auto simp: find_None_iff)
    then show ?thesis by (simp add: findTweet_def find_append_None)
  qed
  have "\<exists>t'. findTweet (run ?s' rs') i = Some t' \<and> author t' = author ?t \<and>
                        handle t' = handle ?t \<and> tweet_avatar t' = tweet_avatar ?t" for rs'
    using findTweet_run [OF f', of rs'] unfolding same_snapshot_def by blast
  with r f' show ?thesis by (intro exI [of _ ?s'] exI [of _ ?t]) simp
qed


theorem createTweet_snapshot_witness:
  "authenticate (run empty_store ex_requests) (Token 2) = Inr ex_bob \<and>
   avatar ex_bob \<noteq> [] \<and> ''hi'' \<noteq> [] \<and>
   11 \<notin> set (map tid (tweets (run empty_store ex_requests))) \<and>
   (\<exists>s' t. createTweet (run empty_store ex_requests) 11 2000 ex_bob (Some ''hi'') None =
              (s', Inr (201, t)) \<and>
           author t = name ex_bob \<and> handle t = ''@'' @ username ex_bob \<and>
           tweet_avatar t = avatar ex_bob \<and>
           findTweet s' 11 = Some t \<and>
           (\<forall>rs'. \<exists>t'. findTweet (run s' rs') 11 = Some t' \<and> author t' = author t \<and>
                        handle t' = handle t \<and> tweet_avatar t' = tweet_avatar t))"
proof -
  have h1: "authenticate (run empty_store ex_requests) (Token 2) = Inr ex_bob"
    by (simp add: run_ex_requests authenticate_def findUser_def ex_store_def ex_ann_def
        ex_bob_def)
  have h2: "avatar ex_bob \<noteq> []"
    by (simp add: ex_bob_def)
  have h3: "''hi'' \<noteq> []"
    by simp
  have h4: "11 \<notin> set (map tid (tweets (run empty_store ex_requests)))"
    by (simp add: run_ex_requests ex_store_def ex_tweet_def)
  from createTweet_snapshot [OF h1 h2 h3 h4, of 2000 None] h1 h2 h3 h4
  show ?thesis by (intro conjI)
qed

end
